theory Spec2Isabelle
  imports Complex_Main
begin

section \<open>Water-filling power allocation (Waterfilling\_GNN.ipynb, step 1 and step 4)\<close>

text \<open>
  The notebook works on one-dimensional torch tensors of floats. A tensor is modelled as
  the list of its entries, and the entries as real numbers: the arithmetic below is exact,
  so rounding and overflow of the 32-bit floats are not part of the model. Where the float
  computation would leave the finite numbers (a division by zero gives \<open>inf\<close> or \<open>nan\<close>,
  a logarithm of a non-positive number gives \<open>nan\<close> or \<open>-inf\<close>) torch raises nothing and
  goes on with that value; the model has no such value and stops with \<open>NonFinite\<close>.
  The other constructors are the exceptions the Python can raise.
\<close>

type_synonym tensor = "real list"

datatype error =
    RuntimeError        \<comment> \<open>torch: the sizes of two tensors do not broadcast\<close>
  | IndexError          \<comment> \<open>torch: an index of an indexed assignment is out of range\<close>
  | UnboundLocalError   \<comment> \<open>Python: a local variable is read before any assignment\<close>
  | NonFinite           \<comment> \<open>no exception: the float result is \<open>inf\<close> or \<open>nan\<close>\<close>

definition and_then :: "error + 'a \<Rightarrow> ('a \<Rightarrow> error + 'b) \<Rightarrow> error + 'b" where
  "and_then m f = (case m of Inl e \<Rightarrow> Inl e | Inr x \<Rightarrow> f x)"

subsection \<open>The tensor operations the notebook uses\<close>

text \<open>
  A binary operation on two one-dimensional tensors pairs the entries up when the sizes
  are equal, repeats the single entry of a tensor of size 1, and raises otherwise.
\<close>

definition broadcast_pairs :: "tensor \<Rightarrow> tensor \<Rightarrow> error + (real \<times> real) list" where
  "broadcast_pairs xs ys =
     (if length xs = length ys then Inr (zip xs ys)
      else if length xs = 1 then Inr (map (\<lambda>y. (hd xs, y)) ys)
      else if length ys = 1 then Inr (map (\<lambda>x. (x, hd ys)) xs)
      else Inl RuntimeError)"

definition t_mul :: "tensor \<Rightarrow> tensor \<Rightarrow> error + tensor" where
  "t_mul xs ys = and_then (broadcast_pairs xs ys) (\<lambda>ps. Inr (map (\<lambda>(x, y). x * y) ps))"

definition t_sub :: "tensor \<Rightarrow> tensor \<Rightarrow> error + tensor" where
  "t_sub xs ys = and_then (broadcast_pairs xs ys) (\<lambda>ps. Inr (map (\<lambda>(x, y). x - y) ps))"

definition t_maximum :: "tensor \<Rightarrow> tensor \<Rightarrow> error + tensor" where
  "t_maximum xs ys = and_then (broadcast_pairs xs ys) (\<lambda>ps. Inr (map (\<lambda>(x, y). max x y) ps))"

definition t_div :: "tensor \<Rightarrow> tensor \<Rightarrow> error + tensor" where
  "t_div xs ys = and_then (broadcast_pairs xs ys) (\<lambda>ps.
     if list_ex (\<lambda>(x, y). y = 0) ps then Inl NonFinite
     else Inr (map (\<lambda>(x, y). x / y) ps))"

text \<open>A tensor and a Python number: \<open>xs * c\<close>, \<open>c + xs\<close>, \<open>c / xs\<close>.\<close>

definition t_mul_s :: "tensor \<Rightarrow> real \<Rightarrow> tensor" where
  "t_mul_s xs c = map (\<lambda>x. x * c) xs"

definition s_add_t :: "real \<Rightarrow> tensor \<Rightarrow> tensor" where
  "s_add_t c xs = map (\<lambda>x. c + x) xs"

definition s_div_t :: "real \<Rightarrow> tensor \<Rightarrow> error + tensor" where
  "s_div_t c ys =
     (if list_ex (\<lambda>y. y = 0) ys then Inl NonFinite else Inr (map (\<lambda>y. c / y) ys))"

text \<open>Two numbers (zero-dimensional tensors): \<open>a / b\<close>.\<close>

definition s_div :: "real \<Rightarrow> real \<Rightarrow> error + real" where
  "s_div a b = (if b = 0 then Inl NonFinite else Inr (a / b))"

definition t_log2 :: "tensor \<Rightarrow> error + tensor" where
  "t_log2 xs =
     (if list_ex (\<lambda>x. x \<le> 0) xs then Inl NonFinite else Inr (map (\<lambda>x. log 2 x) xs))"

definition ones :: "nat \<Rightarrow> tensor" where
  "ones n = replicate n 1"

definition zeros :: "nat \<Rightarrow> tensor" where
  "zeros n = replicate n 0"

text \<open>\<open>torch.where(xs < 0)[0]\<close>: the indices of the negative entries, in order.\<close>

definition where_negative :: "tensor \<Rightarrow> nat list" where
  "where_negative xs = filter (\<lambda>i. xs ! i < 0) [0..<length xs]"

text \<open>\<open>xs[idx] = 0\<close> for a tensor of indices: every index must be in range.\<close>

definition index_put_zero :: "tensor \<Rightarrow> nat list \<Rightarrow> error + tensor" where
  "index_put_zero xs idx =
     (if list_all (\<lambda>i. i < length xs) idx then Inr (fold (\<lambda>i zs. zs[i := 0]) idx xs)
      else Inl IndexError)"

subsection \<open>waterfilling\_backtracking\<close>

text \<open>Both solvers set the local \<open>total_power = 1\<close>.\<close>

definition total_power :: real where
  "total_power = 1"

text \<open>
  The first two statements of the loop body: the water level \<open>inv_mu\<close> of the agents
  marked in \<open>I_u\<close> and the trial allocation. The operands are evaluated in Python's
  order, so the first failing operation decides the error.
  \<^verbatim>\<open>
  inv_mu = (total_power + torch.sum(I_u * 1/channel_gains))/torch.sum(I_u * user_weights)
  allocated_power = I_u * (user_weights*inv_mu - 1/channel_gains)
  \<close>
\<close>

definition trial_allocation :: "tensor \<Rightarrow> tensor \<Rightarrow> tensor \<Rightarrow> error + tensor" where
  "trial_allocation user_weights channel_gains I_u =
     and_then (t_div (t_mul_s I_u 1) channel_gains) (\<lambda>inv_gains.
     and_then (t_mul I_u user_weights) (\<lambda>active_weights.
     and_then (s_div (total_power + sum_list inv_gains) (sum_list active_weights)) (\<lambda>inv_mu.
     and_then (s_div_t 1 channel_gains) (\<lambda>recip.
     and_then (t_sub (t_mul_s user_weights inv_mu) recip) (\<lambda>level.
     t_mul I_u level)))))"

text \<open>
  The while loop. The state is the indicator \<open>I_u\<close> and the variable \<open>allocated_power\<close>,
  which has no value before the first iteration; \<open>iterations\<close> counts the executions of
  the loop body and is not a variable of the source. The result is the state at the exit.
  \<^verbatim>\<open>
  while torch.sum(I_u) > 0 :
     inv_mu = ...
     allocated_power = ...
     Sinactive = torch.where(allocated_power < 0 )[0]
     if len(Sinactive) == 0 :
         break
     I_u[Sinactive] = 0
  \<close>
\<close>

function backtracking_loop ::
  "tensor \<Rightarrow> tensor \<Rightarrow> tensor \<Rightarrow> tensor option \<Rightarrow> nat \<Rightarrow> error + (tensor \<times> tensor option \<times> nat)" where
  "backtracking_loop user_weights channel_gains I_u allocated_power iterations =
     (if sum_list I_u > 0 then
        (case trial_allocation user_weights channel_gains I_u of
           Inl e \<Rightarrow> Inl e
         | Inr allocated_power' \<Rightarrow>
             (if length (where_negative allocated_power') = 0
              then Inr (I_u, Some allocated_power', Suc iterations)
              else (case index_put_zero I_u (where_negative allocated_power') of
                      Inl e \<Rightarrow> Inl e
                    | Inr I_u' \<Rightarrow>
                        backtracking_loop user_weights channel_gains I_u'
                          (Some allocated_power') (Suc iterations))))
      else Inr (I_u, allocated_power, iterations))"
  by pat_completeness auto

text \<open>
  \<^verbatim>\<open>
  def waterfilling_backtracking(user_weights,channel_gains):
      num_users = len(user_weights)
      I_u = torch.ones(num_users)
      total_power = 1
      while ...
      return allocated_power
  \<close>
  The return reads \<open>allocated_power\<close>, which is unbound when the loop body never ran.
\<close>

definition waterfilling_backtracking :: "tensor \<Rightarrow> tensor \<Rightarrow> error + tensor" where
  "waterfilling_backtracking user_weights channel_gains =
     (let num_users = length user_weights in
      and_then (backtracking_loop user_weights channel_gains (ones num_users) None 0)
        (\<lambda>(I_u, allocated_power, iterations).
           case allocated_power of
             None \<Rightarrow> Inl UnboundLocalError
           | Some p \<Rightarrow> Inr p))"

subsection \<open>waterfilling\_bisection\<close>

text \<open>
  One execution of the body of the while loop, up to its last statement: the new bracket
  and the allocation of the midpoint.
  \<^verbatim>\<open>
  mu = (mu_min+mu_max) / 2
  allocated_power = torch.maximum(torch.zeros(num_users),user_weights* mu - 1/channel_gains)
  power_sum = torch.sum(allocated_power)
  if power_sum <= total_power:
      mu_min = mu
  else:
      mu_max = mu
  \<close>
\<close>

definition bisection_body ::
  "tensor \<Rightarrow> tensor \<Rightarrow> real \<Rightarrow> real \<Rightarrow> error + (real \<times> real \<times> tensor)" where
  "bisection_body user_weights channel_gains mu_min mu_max =
     (let num_users = length user_weights;
          mu = (mu_min + mu_max) / 2
      in and_then (s_div_t 1 channel_gains) (\<lambda>recip.
         and_then (t_sub (t_mul_s user_weights mu) recip) (\<lambda>level.
         and_then (t_maximum (zeros num_users) level) (\<lambda>allocated_power.
           let power_sum = sum_list allocated_power in
           if power_sum \<le> total_power then Inr (mu, mu_max, allocated_power)
           else Inr (mu_min, mu, allocated_power)))))"

text \<open>
  \<^verbatim>\<open>
  def waterfilling_bisection(user_weights,channel_gains,epsilon = 1e-6):
      total_power = 1
      mu_min = 0.0
      mu_max = (total_power + torch.sum(1/channel_gains))/torch.sum(user_weights) + 0.1
      num_users = len(user_weights)
      while mu_max- mu_min > epsilon:
          ...body...
          return allocated_power
  \<close>
  The \<open>return\<close> is the last statement of the loop body, at the body's indentation: the
  first execution of the body leaves the function and the updated bracket is never read.
  The loop is therefore a conditional. When the condition fails at once the function
  ends without a \<open>return\<close>, and its value is Python's \<open>None\<close>.
\<close>

definition waterfilling_bisection :: "tensor \<Rightarrow> tensor \<Rightarrow> real \<Rightarrow> error + tensor option" where
  "waterfilling_bisection user_weights channel_gains epsilon =
     and_then (s_div_t 1 channel_gains) (\<lambda>recip.
     and_then (s_div (total_power + sum_list recip) (sum_list user_weights)) (\<lambda>quotient.
       let mu_min = 0;
           mu_max = quotient + 1 / 10
       in if mu_max - mu_min > epsilon then
            and_then (bisection_body user_weights channel_gains mu_min mu_max)
              (\<lambda>(mu_min', mu_max', allocated_power). Inr (Some allocated_power))
          else Inr None))"

subsection \<open>compute\_weighted\_rate\<close>

text \<open>
  \<^verbatim>\<open>
  def compute_weighted_rate(channel_gains, user_weights,allocated_power):
      SNR = channel_gains* allocated_power
      weighted_rate = user_weights * torch.log2(1+SNR)
      return torch.sum(weighted_rate)
  \<close>
\<close>

definition compute_weighted_rate :: "tensor \<Rightarrow> tensor \<Rightarrow> tensor \<Rightarrow> error + real" where
  "compute_weighted_rate channel_gains user_weights allocated_power =
     and_then (t_mul channel_gains allocated_power) (\<lambda>SNR.
     and_then (t_log2 (s_add_t 1 SNR)) (\<lambda>rate.
     and_then (t_mul user_weights rate) (\<lambda>weighted_rate.
       Inr (sum_list weighted_rate))))"

subsection \<open>The inputs the solvers are meant for, and notions used in the statements\<close>

text \<open>
  A valid input: as many gains as weights, at least one agent, every weight and every gain
  strictly positive.
\<close>

definition valid_input :: "tensor \<Rightarrow> tensor \<Rightarrow> bool" where
  "valid_input user_weights channel_gains \<longleftrightarrow>
     length user_weights = length channel_gains \<and> 1 \<le> length user_weights \<and>
     list_all (\<lambda>w. 0 < w) user_weights \<and> list_all (\<lambda>g. 0 < g) channel_gains"

text \<open>An indicator of \<open>n\<close> agents: \<open>n\<close> entries, each 0 (inactive) or 1 (active).\<close>

definition is_indicator :: "nat \<Rightarrow> tensor \<Rightarrow> bool" where
  "is_indicator n I_u \<longleftrightarrow> length I_u = n \<and> list_all (\<lambda>x. x = 0 \<or> x = 1) I_u"

text \<open>The agents an indicator marks: the positions of its non-zero entries.\<close>

definition active :: "tensor \<Rightarrow> nat set" where
  "active I_u = {i. i < length I_u \<and> I_u ! i \<noteq> 0}"

text \<open>The value of \<open>inv_mu\<close> for an indicator, as a sum over the agents.\<close>

definition water_level :: "tensor \<Rightarrow> tensor \<Rightarrow> tensor \<Rightarrow> real" where
  "water_level ws gs I_u =
     (1 + (\<Sum>j = 0..<length I_u. I_u ! j / gs ! j)) / (\<Sum>j = 0..<length I_u. I_u ! j * ws ! j)"

text \<open>The upper end of the bracket the bisection starts from.\<close>

definition initial_mu_max :: "tensor \<Rightarrow> tensor \<Rightarrow> real" where
  "initial_mu_max user_weights channel_gains =
     (1 + (\<Sum>g\<leftarrow>channel_gains. 1 / g)) / sum_list user_weights + 1 / 10"


section \<open>Proofs\<close>

subsection \<open>Termination of the backtracking loop\<close>

lemma finite_active: "finite (active I_u)"
  by (simp add: active_def)

lemma and_then_Inr: "and_then m f = Inr y \<longleftrightarrow> (\<exists>x. m = Inr x \<and> f x = Inr y)"
  by (cases m) (simp_all add: and_then_def)

lemma and_then_simps: "and_then (Inr x) f = f x" "and_then (Inl e) f = Inl e"
  by (simp_all add: and_then_def)

lemma fold_put_zero_length: "length (fold (\<lambda>i zs. zs[i := 0::real]) idx xs) = length xs"
  by (induction idx arbitrary: xs) simp_all

lemma fold_put_zero_nth:
  "j < length xs \<Longrightarrow>
   fold (\<lambda>i zs. zs[i := 0::real]) idx xs ! j = (if j \<in> set idx then 0 else xs ! j)"
proof (induction idx arbitrary: xs)
  case Nil
  then show ?case by simp
next
  case (Cons i idx)
  have "fold (\<lambda>i zs. zs[i := 0]) (i # idx) xs ! j = fold (\<lambda>i zs. zs[i := 0]) idx (xs[i := 0]) ! j"
    by simp
  also have "\<dots> = (if j \<in> set idx then 0 else xs[i := 0] ! j)"
    using Cons.prems by (intro Cons.IH) simp
  also have "\<dots> = (if j \<in> set (i # idx) then 0 else xs ! j)"
    using Cons.prems by (auto simp: nth_list_update)
  finally show ?case .
qed

lemma index_put_zero_Inr:
  assumes "index_put_zero xs idx = Inr ys"
  shows "length ys = length xs"
    and "\<forall>i \<in> set idx. i < length xs"
    and "j < length xs \<Longrightarrow> ys ! j = (if j \<in> set idx then 0 else xs ! j)"
  using assms
  by (auto simp: index_put_zero_def list_all_iff fold_put_zero_length fold_put_zero_nth
      split: if_splits)

lemma set_where_negative: "set (where_negative xs) = {i. i < length xs \<and> xs ! i < 0}"
  by (auto simp: where_negative_def)

lemma t_mul_nonzero:
  assumes "t_mul xs ys = Inr zs" "i < length zs" "i < length xs" "zs ! i \<noteq> 0"
  shows "xs ! i \<noteq> 0"
proof
  assume z: "xs ! i = 0"
  consider (eq) "length xs = length ys"
    | (l) "length xs \<noteq> length ys" "length xs = 1"
    | (r) "length xs \<noteq> length ys" "length xs \<noteq> 1" "length ys = 1"
    | (bad) "length xs \<noteq> length ys" "length xs \<noteq> 1" "length ys \<noteq> 1"
    by blast
  then show False
  proof cases
    case eq
    with assms z show False
      by (auto simp: t_mul_def broadcast_pairs_def and_then_simps)
  next
    case l
    with assms(1) have zs: "zs = map (\<lambda>y. hd xs * y) ys"
      by (auto simp: t_mul_def broadcast_pairs_def and_then_simps)
    from l assms(3) have "i = 0" by simp
    with z l have "hd xs = 0" by (cases xs) simp_all
    with zs assms(2) have "zs ! i = 0" by simp
    with assms(4) show False by simp
  next
    case r
    with assms z show False
      by (auto simp: t_mul_def broadcast_pairs_def and_then_simps)
  next
    case bad
    with assms show False
      by (simp add: t_mul_def broadcast_pairs_def and_then_simps)
  qed
qed

lemma trial_allocation_nonzero:
  assumes "trial_allocation ws gs I_u = Inr p" "i < length p" "i < length I_u" "p ! i \<noteq> 0"
  shows "I_u ! i \<noteq> 0"
proof -
  from assms(1) obtain level where "t_mul I_u level = Inr p"
    by (auto simp: trial_allocation_def and_then_Inr)
  then show ?thesis using assms(2-4) by (rule t_mul_nonzero)
qed

lemma deactivate_shrinks:
  assumes t: "trial_allocation ws gs I_u = Inr p"
    and ne: "length (where_negative p) \<noteq> 0"
    and put: "index_put_zero I_u (where_negative p) = Inr I_u'"
  shows "active I_u' \<subset> active I_u"
proof -
  from ne obtain i where i: "i \<in> set (where_negative p)"
    by (cases "where_negative p") auto
  then have ip: "i < length p" "p ! i < 0"
    by (simp_all add: set_where_negative)
  from index_put_zero_Inr(2)[OF put] i have il: "i < length I_u" by blast
  from ip(2) have "p ! i \<noteq> 0" by simp
  with t ip(1) il have nz: "I_u ! i \<noteq> 0"
    by (rule trial_allocation_nonzero)
  have len: "length I_u' = length I_u"
    by (rule index_put_zero_Inr(1)[OF put])
  have nth: "\<And>j. j < length I_u \<Longrightarrow> I_u' ! j = (if j \<in> set (where_negative p) then 0 else I_u ! j)"
    by (rule index_put_zero_Inr(3)[OF put])
  have "active I_u' \<subseteq> active I_u"
    by (auto simp: active_def len nth split: if_splits)
  moreover have "i \<in> active I_u" using il nz by (simp add: active_def)
  moreover have "i \<notin> active I_u'" using il i by (simp add: active_def len nth)
  ultimately show ?thesis by blast
qed

termination backtracking_loop
proof (relation "measure (\<lambda>(ws, gs, I_u, p, k). card (active I_u))")
  show "wf (measure (\<lambda>(ws, gs, I_u, p, k). card (active I_u)))" by simp
next
  fix user_weights channel_gains I_u :: tensor
  fix allocated_power :: "tensor option" and iterations :: nat
  fix p I_u' :: tensor
  assume "trial_allocation user_weights channel_gains I_u = Inr p"
    and "length (where_negative p) \<noteq> 0"
    and "index_put_zero I_u (where_negative p) = Inr I_u'"
  then have "active I_u' \<subset> active I_u" by (rule deactivate_shrinks)
  then have "card (active I_u') < card (active I_u)"
    by (simp add: finite_active psubset_card_mono)
  then show "((user_weights, channel_gains, I_u', Some p, Suc iterations),
              (user_weights, channel_gains, I_u, allocated_power, iterations))
             \<in> measure (\<lambda>(ws, gs, I_u, p, k). card (active I_u))"
    by simp
qed

subsection \<open>The trial allocation on inputs of equal length\<close>

lemma broadcast_pairs_eq_length:
  "length xs = length ys \<Longrightarrow> broadcast_pairs xs ys = Inr (zip xs ys)"
  by (simp add: broadcast_pairs_def)

lemma map_zip_nth:
  "length xs = length ys \<Longrightarrow>
   map (\<lambda>(x, y). f x y) (zip xs ys) = map (\<lambda>j. f (xs ! j) (ys ! j)) [0..<length xs]"
  by (rule nth_equalityI) simp_all

lemma map_nth_upt: "map f xs = map (\<lambda>j. f (xs ! j)) [0..<length xs]"
  by (rule nth_equalityI) simp_all

lemma sum_list_map_upt: "sum_list (map f [0..<n]) = (\<Sum>j = 0..<n. f j)"
  by (simp add: interv_sum_list_conv_sum_set_nat)

lemma t_mul_eq_length:
  "length xs = length ys \<Longrightarrow> t_mul xs ys = Inr (map (\<lambda>j. xs ! j * ys ! j) [0..<length xs])"
  by (simp add: t_mul_def broadcast_pairs_eq_length and_then_simps map_zip_nth)

lemma t_sub_eq_length:
  "length xs = length ys \<Longrightarrow> t_sub xs ys = Inr (map (\<lambda>j. xs ! j - ys ! j) [0..<length xs])"
  by (simp add: t_sub_def broadcast_pairs_eq_length and_then_simps map_zip_nth)

lemma t_maximum_eq_length:
  "length xs = length ys \<Longrightarrow>
   t_maximum xs ys = Inr (map (\<lambda>j. max (xs ! j) (ys ! j)) [0..<length xs])"
  by (simp add: t_maximum_def broadcast_pairs_eq_length and_then_simps map_zip_nth)

lemma t_div_eq_length:
  assumes "length xs = length ys" "\<forall>y \<in> set ys. y \<noteq> 0"
  shows "t_div xs ys = Inr (map (\<lambda>j. xs ! j / ys ! j) [0..<length xs])"
proof -
  have "\<not> list_ex (\<lambda>(x, y). y = 0) (zip xs ys)"
    using assms(2) by (auto simp: list_ex_iff dest: set_zip_rightD)
  then show ?thesis
    using assms(1) by (simp add: t_div_def broadcast_pairs_eq_length and_then_simps map_zip_nth)
qed

lemma s_div_t_nonzero:
  assumes "\<forall>y \<in> set ys. y \<noteq> 0"
  shows "s_div_t c ys = Inr (map (\<lambda>j. c / ys ! j) [0..<length ys])"
proof -
  have "\<not> list_ex (\<lambda>y. y = 0) ys"
    using assms by (auto simp: list_ex_iff)
  moreover have "map (\<lambda>y. c / y) ys = map (\<lambda>j. c / ys ! j) [0..<length ys]"
    by (rule map_nth_upt)
  ultimately show ?thesis by (simp add: s_div_t_def)
qed

lemma t_mul_s_nth: "t_mul_s xs c = map (\<lambda>j. xs ! j * c) [0..<length xs]"
  unfolding t_mul_s_def by (rule map_nth_upt)

lemma trial_allocation_eq_length:
  assumes len: "length ws = n" "length gs = n" "length I_u = n"
    and gs: "\<forall>g \<in> set gs. g \<noteq> 0"
    and den: "(\<Sum>j = 0..<n. I_u ! j * ws ! j) \<noteq> 0"
  shows "trial_allocation ws gs I_u =
         Inr (map (\<lambda>j. I_u ! j * (ws ! j * water_level ws gs I_u - 1 / gs ! j)) [0..<n])"
proof -
  have a: "t_div (t_mul_s I_u 1) gs = Inr (map (\<lambda>j. I_u ! j / gs ! j) [0..<n])"
    using len gs by (simp add: t_div_eq_length t_mul_s_def)
  have b: "t_mul I_u ws = Inr (map (\<lambda>j. I_u ! j * ws ! j) [0..<n])"
    using len by (simp add: t_mul_eq_length)
  have c: "s_div (total_power + sum_list (map (\<lambda>j. I_u ! j / gs ! j) [0..<n]))
             (sum_list (map (\<lambda>j. I_u ! j * ws ! j) [0..<n])) = Inr (water_level ws gs I_u)"
    using den len by (simp add: s_div_def sum_list_map_upt water_level_def total_power_def)
  have d: "s_div_t 1 gs = Inr (map (\<lambda>j. 1 / gs ! j) [0..<n])"
    using gs len s_div_t_nonzero[of gs 1] by simp
  have e: "t_sub (t_mul_s ws (water_level ws gs I_u)) (map (\<lambda>j. 1 / gs ! j) [0..<n]) =
           Inr (map (\<lambda>j. ws ! j * water_level ws gs I_u - 1 / gs ! j) [0..<n])"
    using len by (simp add: t_sub_eq_length t_mul_s_def)
  have f: "t_mul I_u (map (\<lambda>j. ws ! j * water_level ws gs I_u - 1 / gs ! j) [0..<n]) =
           Inr (map (\<lambda>j. I_u ! j * (ws ! j * water_level ws gs I_u - 1 / gs ! j)) [0..<n])"
    using len by (simp add: t_mul_eq_length)
  show ?thesis
    unfolding trial_allocation_def by (simp only: a b c d e f and_then_simps)
qed

lemma trial_allocation_sum:
  assumes den: "(\<Sum>j = 0..<n. I_u ! j * ws ! j) \<noteq> 0" and n: "length I_u = n"
  shows "(\<Sum>j = 0..<n. I_u ! j * (ws ! j * water_level ws gs I_u - 1 / gs ! j)) = 1"
proof -
  let ?mu = "water_level ws gs I_u"
  let ?W = "\<Sum>j = 0..<n. I_u ! j * ws ! j"
  let ?G = "\<Sum>j = 0..<n. I_u ! j / gs ! j"
  have mu: "?mu * ?W = 1 + ?G"
    using den n by (simp add: water_level_def)
  have "(\<Sum>j = 0..<n. I_u ! j * (ws ! j * ?mu - 1 / gs ! j)) =
        (\<Sum>j = 0..<n. ?mu * (I_u ! j * ws ! j) - I_u ! j / gs ! j)"
    by (rule sum.cong) (simp_all add: algebra_simps)
  also have "\<dots> = ?mu * ?W - ?G"
    by (simp add: sum_subtractf sum_distrib_left)
  also have "\<dots> = 1" using mu by simp
  finally show ?thesis .
qed


lemma valid_inputD:
  assumes "valid_input ws gs"
  shows "length gs = length ws" "1 \<le> length ws"
    "\<And>j. j < length ws \<Longrightarrow> 0 < ws ! j" "\<And>j. j < length ws \<Longrightarrow> 0 < gs ! j"
    "\<forall>g \<in> set gs. g \<noteq> 0"
  using assms by (auto simp: valid_input_def list_all_iff)

lemma is_indicatorD:
  assumes "is_indicator n I_u"
  shows "length I_u = n" "\<And>j. j < n \<Longrightarrow> I_u ! j = 0 \<or> I_u ! j = 1"
  using assms by (auto simp: is_indicator_def list_all_iff)

lemma is_indicator_ones: "is_indicator n (ones n)"
  by (simp add: is_indicator_def ones_def list_all_iff)

lemma sum_list_pos_active:
  assumes "0 < sum_list (I_u :: tensor)"
  shows "\<exists>j < length I_u. I_u ! j \<noteq> 0"
proof (rule ccontr)
  assume "\<not> (\<exists>j < length I_u. I_u ! j \<noteq> 0)"
  then have "(\<Sum>j = 0..<length I_u. I_u ! j) = 0" by simp
  with assms show False by (simp add: sum_list_sum_nth)
qed

lemma active_weight_pos:
  assumes v: "valid_input ws gs" and i: "is_indicator (length ws) I_u" and s: "0 < sum_list I_u"
  shows "0 < (\<Sum>j = 0..<length ws. I_u ! j * ws ! j)"
proof -
  from sum_list_pos_active[OF s] is_indicatorD[OF i]
  obtain j where j: "j < length ws" "I_u ! j = 1" by auto
  show ?thesis
  proof (rule sum_pos2[where i = j])
    show "0 < I_u ! j * ws ! j" using j valid_inputD(3)[OF v] by simp
  next
    fix k assume "k \<in> {0..<length ws}"
    then have k: "k < length ws" by simp
    from is_indicatorD(2)[OF i k] valid_inputD(3)[OF v k]
    show "0 \<le> I_u ! k * ws ! k" by auto
  qed (use j in simp_all)
qed

lemma trial_allocation_valid:
  assumes v: "valid_input ws gs" and i: "is_indicator (length ws) I_u" and s: "0 < sum_list I_u"
  shows "\<exists>p. trial_allocation ws gs I_u = Inr p \<and> length p = length ws \<and> sum_list p = 1"
proof -
  let ?n = "length ws"
  let ?p = "map (\<lambda>j. I_u ! j * (ws ! j * water_level ws gs I_u - 1 / gs ! j)) [0..<?n]"
  have den: "(\<Sum>j = 0..<?n. I_u ! j * ws ! j) \<noteq> 0"
    using active_weight_pos[OF v i s] by simp
  have "trial_allocation ws gs I_u = Inr ?p"
    using valid_inputD(1,5)[OF v] is_indicatorD(1)[OF i] den
    by (intro trial_allocation_eq_length) simp_all
  moreover have "sum_list ?p = 1"
    using trial_allocation_sum[OF den is_indicatorD(1)[OF i]] by (simp add: sum_list_map_upt)
  ultimately show ?thesis by simp
qed

lemma sum_list_one_positive_entry:
  assumes "sum_list (p :: tensor) = 1"
  shows "\<exists>j < length p. 0 < p ! j"
proof (rule ccontr)
  assume a: "\<not> (\<exists>j < length p. 0 < p ! j)"
  have "p ! j \<le> 0" if "j < length p" for j
    using a that not_less by blast
  then have "(\<Sum>j = 0..<length p. p ! j) \<le> 0"
    by (intro sum_nonpos) simp
  with assms show False by (simp add: sum_list_sum_nth)
qed

lemma indicator_sum_pos:
  assumes i: "is_indicator n I_u" and j: "j < n" "I_u ! j = 1"
  shows "0 < sum_list I_u"
proof -
  have "0 < (\<Sum>k = 0..<n. I_u ! k)"
  proof (rule sum_pos2[where i = j])
    fix k assume "k \<in> {0..<n}"
    then show "0 \<le> I_u ! k" using is_indicatorD(2)[OF i, of k] by auto
  qed (use j in simp_all)
  then show ?thesis using is_indicatorD(1)[OF i] by (simp add: sum_list_sum_nth)
qed

text \<open>One iteration that does not break: the indicator after the assignment.\<close>

lemma deactivate_valid:
  assumes v: "valid_input ws gs" and i: "is_indicator (length ws) I_u"
    and t: "trial_allocation ws gs I_u = Inr p" and lp: "length p = length ws"
    and sp: "sum_list p = 1"
  shows "\<exists>I_u'. index_put_zero I_u (where_negative p) = Inr I_u' \<and>
           is_indicator (length ws) I_u' \<and> 0 < sum_list I_u'"
proof -
  let ?n = "length ws"
  let ?S = "where_negative p"
  have len: "length I_u = ?n" by (rule is_indicatorD(1)[OF i])
  have "list_all (\<lambda>k. k < length I_u) ?S"
    by (simp add: list_all_iff set_where_negative len lp)
  then obtain I_u' where put: "index_put_zero I_u ?S = Inr I_u'"
    by (simp add: index_put_zero_def)
  have len': "length I_u' = ?n"
    using index_put_zero_Inr(1)[OF put] len by simp
  have nth: "\<And>k. k < ?n \<Longrightarrow> I_u' ! k = (if k \<in> set ?S then 0 else I_u ! k)"
    using index_put_zero_Inr(3)[OF put] len by simp
  have ind: "is_indicator ?n I_u'"
    unfolding is_indicator_def list_all_length
    using len' nth is_indicatorD(2)[OF i] by auto
  from sum_list_one_positive_entry[OF sp] lp
  obtain j where j: "j < ?n" "0 < p ! j" by auto
  from j(2) have "p ! j \<noteq> 0" by simp
  with t have "I_u ! j \<noteq> 0"
    using j(1) lp len by (intro trial_allocation_nonzero[of ws gs I_u p j]) simp_all
  with is_indicatorD(2)[OF i j(1)] have "I_u ! j = 1" by simp
  moreover have "j \<notin> set ?S" using j by (simp add: set_where_negative)
  ultimately have "I_u' ! j = 1" using nth[OF j(1)] by simp
  with ind j(1) have "0 < sum_list I_u'" by (rule indicator_sum_pos)
  with put ind show ?thesis by blast
qed


lemma active_card_pos:
  assumes "0 < sum_list (I_u :: tensor)"
  shows "0 < card (active I_u)"
proof -
  from sum_list_pos_active[OF assms] obtain j where "j \<in> active I_u"
    by (auto simp: active_def)
  then show ?thesis
    using finite_active[of I_u] by (auto simp: card_gt_0_iff)
qed

lemma backtracking_loop_valid:
  assumes v: "valid_input ws gs"
  shows "is_indicator (length ws) I_u \<Longrightarrow> 0 < sum_list I_u \<Longrightarrow>
     \<exists>I' p k'. backtracking_loop ws gs I_u ap k = Inr (I', Some p, k') \<and>
        is_indicator (length ws) I' \<and> 0 < sum_list I' \<and>
        trial_allocation ws gs I' = Inr p \<and> where_negative p = [] \<and>
        length p = length ws \<and> sum_list p = 1 \<and>
        k < k' \<and> k' \<le> k + card (active I_u)"
proof (induction "card (active I_u)" arbitrary: I_u ap k rule: less_induct)
  case less
  note ind = \<open>is_indicator (length ws) I_u\<close> and pos = \<open>0 < sum_list I_u\<close>
  from trial_allocation_valid[OF v ind pos]
  obtain p0 where p0: "trial_allocation ws gs I_u = Inr p0" "length p0 = length ws"
    "sum_list p0 = 1" by blast
  show ?case
  proof (cases "where_negative p0 = []")
    case True
    have "backtracking_loop ws gs I_u ap k = Inr (I_u, Some p0, Suc k)"
      using pos p0(1) True by (subst backtracking_loop.simps) simp
    moreover have "Suc k \<le> k + card (active I_u)"
      using active_card_pos[OF pos] by simp
    ultimately show ?thesis
      using ind pos p0 True by auto
  next
    case False
    from deactivate_valid[OF v ind p0]
    obtain I_u' where I': "index_put_zero I_u (where_negative p0) = Inr I_u'"
      "is_indicator (length ws) I_u'" "0 < sum_list I_u'" by blast
    from False have ne: "length (where_negative p0) \<noteq> 0" by simp
    have "active I_u' \<subset> active I_u"
      using p0(1) ne I'(1) by (rule deactivate_shrinks)
    then have c: "card (active I_u') < card (active I_u)"
      by (simp add: finite_active psubset_card_mono)
    from less.hyps[OF c I'(2,3), of "Some p0" "Suc k"]
    obtain I'' p k' where r:
      "backtracking_loop ws gs I_u' (Some p0) (Suc k) = Inr (I'', Some p, k')"
      "is_indicator (length ws) I''" "0 < sum_list I''"
      "trial_allocation ws gs I'' = Inr p" "where_negative p = []"
      "length p = length ws" "sum_list p = 1"
      "Suc k < k'" "k' \<le> Suc k + card (active I_u')" by blast
    have "backtracking_loop ws gs I_u ap k = backtracking_loop ws gs I_u' (Some p0) (Suc k)"
      using pos p0(1) ne I'(1) by (subst backtracking_loop.simps) simp
    with r c show ?thesis by auto
  qed
qed


subsection \<open>The backtracking solver on valid input\<close>

lemma sum_list_ones: "sum_list (ones n) = real n"
  by (simp add: ones_def sum_list_replicate)

lemma active_ones: "active (ones n) = {0..<n}"
  by (auto simp: active_def ones_def)

lemma backtracking_valid:
  assumes v: "valid_input ws gs"
  shows "\<exists>I_u p k. backtracking_loop ws gs (ones (length ws)) None 0 = Inr (I_u, Some p, k) \<and>
           waterfilling_backtracking ws gs = Inr p \<and>
           is_indicator (length ws) I_u \<and> 0 < sum_list I_u \<and>
           trial_allocation ws gs I_u = Inr p \<and> where_negative p = [] \<and>
           length p = length ws \<and> sum_list p = 1 \<and> 0 < k \<and> k \<le> length ws"
proof -
  have pos: "0 < sum_list (ones (length ws))"
    using valid_inputD(2)[OF v] by (cases ws) (simp_all add: sum_list_ones)
  from backtracking_loop_valid[OF v is_indicator_ones pos, of None 0]
  obtain I_u p k where r:
    "backtracking_loop ws gs (ones (length ws)) None 0 = Inr (I_u, Some p, k)"
    "is_indicator (length ws) I_u" "0 < sum_list I_u"
    "trial_allocation ws gs I_u = Inr p" "where_negative p = []"
    "length p = length ws" "sum_list p = 1"
    "0 < k" "k \<le> 0 + card (active (ones (length ws)))" by blast
  from r(1) have "waterfilling_backtracking ws gs = Inr p"
    by (simp add: waterfilling_backtracking_def and_then_simps)
  moreover from r(9) have "k \<le> length ws" by (simp add: active_ones)
  ultimately show ?thesis using r by blast
qed

subsection \<open>The bisection solver on inputs of equal length\<close>

lemma s_div_t_map:
  assumes "\<forall>y \<in> set ys. y \<noteq> 0"
  shows "s_div_t c ys = Inr (map (\<lambda>y. c / y) ys)"
  using assms by (auto simp: s_div_t_def list_ex_iff)

lemma bisection_body_eq_length:
  assumes len: "length gs = length ws" and gs: "\<forall>g \<in> set gs. g \<noteq> 0"
  shows "bisection_body ws gs lo hi =
         (let mu = (lo + hi) / 2;
              p = map (\<lambda>j. max 0 (ws ! j * mu - 1 / gs ! j)) [0..<length ws]
          in if sum_list p \<le> total_power then Inr (mu, hi, p) else Inr (lo, mu, p))"
proof -
  let ?n = "length ws"
  let ?mu = "(lo + hi) / 2"
  have a: "s_div_t 1 gs = Inr (map (\<lambda>j. 1 / gs ! j) [0..<?n])"
    using s_div_t_nonzero[OF gs, of 1] len by simp
  have b: "t_sub (t_mul_s ws ?mu) (map (\<lambda>j. 1 / gs ! j) [0..<?n]) =
           Inr (map (\<lambda>j. ws ! j * ?mu - 1 / gs ! j) [0..<?n])"
    by (simp add: t_sub_eq_length t_mul_s_def)
  have c: "t_maximum (zeros ?n) (map (\<lambda>j. ws ! j * ?mu - 1 / gs ! j) [0..<?n]) =
           Inr (map (\<lambda>j. max 0 (ws ! j * ?mu - 1 / gs ! j)) [0..<?n])"
    by (simp add: t_maximum_eq_length zeros_def)
  show ?thesis
    unfolding bisection_body_def Let_def by (simp only: a b c and_then_simps)
qed

lemma waterfilling_bisection_eq_length:
  assumes len: "length gs = length ws" and gs: "\<forall>g \<in> set gs. g \<noteq> 0"
    and ws: "sum_list ws \<noteq> 0"
  shows "waterfilling_bisection ws gs epsilon =
         (if epsilon < initial_mu_max ws gs
          then Inr (Some (map (\<lambda>j. max 0 (ws ! j * (initial_mu_max ws gs / 2) - 1 / gs ! j))
                            [0..<length ws]))
          else Inr None)"
proof -
  have a: "s_div_t 1 gs = Inr (map (\<lambda>g. 1 / g) gs)"
    by (rule s_div_t_map[OF gs])
  have b: "s_div (total_power + sum_list (map (\<lambda>g. 1 / g) gs)) (sum_list ws) =
           Inr (initial_mu_max ws gs - 1 / 10)"
    using ws by (simp add: s_div_def initial_mu_max_def total_power_def)
  show ?thesis
    unfolding waterfilling_bisection_def
    by (simp add: a b and_then_simps Let_def bisection_body_eq_length[OF len gs])
qed

lemma valid_input_nonzero:
  assumes "valid_input ws gs"
  shows "length gs = length ws" "\<forall>g \<in> set gs. g \<noteq> 0" "sum_list ws \<noteq> 0"
proof -
  show "length gs = length ws" "\<forall>g \<in> set gs. g \<noteq> 0"
    using valid_inputD(1,5)[OF assms] by simp_all
  from valid_inputD(2)[OF assms] have "ws \<noteq> []" by auto
  then have "0 < (\<Sum>j = 0..<length ws. ws ! j)"
    using valid_inputD(3)[OF assms] by (intro sum_pos) simp_all
  then show "sum_list ws \<noteq> 0" by (simp add: sum_list_sum_nth)
qed

subsection \<open>The evaluator on inputs of equal length\<close>

lemma compute_weighted_rate_eq_length:
  assumes len: "length ws = length gs" "length p = length gs"
    and pos: "\<And>u. u < length ws \<Longrightarrow> 0 < 1 + gs ! u * p ! u"
  shows "compute_weighted_rate gs ws p =
         Inr (\<Sum>u = 0..<length ws. ws ! u * log 2 (1 + gs ! u * p ! u))"
proof -
  let ?n = "length ws"
  let ?snr = "map (\<lambda>j. gs ! j * p ! j) [0..<?n]"
  let ?arg = "map (\<lambda>j. 1 + gs ! j * p ! j) [0..<?n]"
  let ?rate = "map (\<lambda>j. log 2 (1 + gs ! j * p ! j)) [0..<?n]"
  have a: "t_mul gs p = Inr ?snr"
    using len by (simp add: t_mul_eq_length)
  have b: "s_add_t 1 ?snr = ?arg"
    by (simp add: s_add_t_def)
  have "\<not> list_ex (\<lambda>x. x \<le> 0) ?arg"
    using pos by (auto simp: list_ex_iff not_le)
  then have c: "t_log2 ?arg = Inr ?rate"
    by (simp add: t_log2_def)
  have d: "t_mul ws ?rate = Inr (map (\<lambda>j. ws ! j * log 2 (1 + gs ! j * p ! j)) [0..<?n])"
    by (simp add: t_mul_eq_length)
  show ?thesis
    unfolding compute_weighted_rate_def
    by (simp only: a b c d and_then_simps sum_list_map_upt)
qed

subsection \<open>Inputs outside the preconditions\<close>
















section \<open>The claims\<close>





text \<open>
  C10. On valid input and with a tolerance \<open>epsilon\<close> of at least the initial bracket width
  \<open>(1 + sum(1/gain)) / sum(weight) + 0.1\<close>, the loop of \<open>waterfilling_bisection\<close> does not
  start and the function returns Python's \<open>None\<close>, not an allocation.
\<close>

theorem bisection_wide_tolerance_returns_none:
  assumes "valid_input user_weights channel_gains"
    and "initial_mu_max user_weights channel_gains \<le> epsilon"
  shows "waterfilling_bisection user_weights channel_gains epsilon = Inr None"
  using assms(2) valid_input_nonzero[OF assms(1)]
  by (simp add: waterfilling_bisection_eq_length)

text \<open>Weights and gains 1 and 1 give a bracket of width 1.6; the tolerance is 2.\<close>

theorem bisection_wide_tolerance_returns_none_witness:
  "valid_input [1, 1] [1, 1] \<and> initial_mu_max [1, 1] [1, 1] \<le> 2 \<and>
   waterfilling_bisection [1, 1] [1, 1] 2 = Inr None"
proof -
  have v: "valid_input [1, 1] [1, 1]"
    by (simp add: valid_input_def)
  have e: "initial_mu_max [1, 1] [1, 1] \<le> 2"
    by (simp add: initial_mu_max_def)
  from bisection_wide_tolerance_returns_none[OF v e] v e show ?thesis
    by simp
qed



text \<open>
  C6. On valid input the loop of \<open>waterfilling_backtracking\<close> ends after at most \<open>N\<close>
  executions of its body, \<open>N\<close> the number of agents. The reason is the second part: in
  every state the loop can be in (an indicator with an active agent) the trial allocation
  is computed, and either none of its entries is negative, which is the \<open>break\<close>, or the
  assignment \<open>I_u[Sinactive] = 0\<close> leaves strictly fewer active agents.
\<close>

theorem backtracking_at_most_N_iterations:
  assumes "valid_input user_weights channel_gains"
  shows "(\<exists>I_u allocated_power iterations.
            backtracking_loop user_weights channel_gains (ones (length user_weights)) None 0 =
              Inr (I_u, allocated_power, iterations) \<and>
            iterations \<le> length user_weights) \<and>
         (\<forall>I_u. is_indicator (length user_weights) I_u \<and> 0 < sum_list I_u \<longrightarrow>
            (\<exists>allocated_power.
               trial_allocation user_weights channel_gains I_u = Inr allocated_power \<and>
               (where_negative allocated_power = [] \<or>
                (\<exists>I_u'. index_put_zero I_u (where_negative allocated_power) = Inr I_u' \<and>
                        active I_u' \<subset> active I_u))))"
proof (intro conjI allI impI)
  from backtracking_valid[OF assms]
  show "\<exists>I_u allocated_power iterations.
          backtracking_loop user_weights channel_gains (ones (length user_weights)) None 0 =
            Inr (I_u, allocated_power, iterations) \<and>
          iterations \<le> length user_weights"
    by blast
next
  fix I_u
  assume "is_indicator (length user_weights) I_u \<and> 0 < sum_list I_u"
  then have i: "is_indicator (length user_weights) I_u" and s: "0 < sum_list I_u"
    by simp_all
  from trial_allocation_valid[OF assms i s]
  obtain p where p: "trial_allocation user_weights channel_gains I_u = Inr p"
    "length p = length user_weights" "sum_list p = 1" by blast
  from deactivate_valid[OF assms i p]
  obtain I_u' where I': "index_put_zero I_u (where_negative p) = Inr I_u'" by blast
  have "where_negative p = [] \<or> active I_u' \<subset> active I_u"
  proof (cases "where_negative p = []")
    case False
    then have "length (where_negative p) \<noteq> 0" by simp
    with p(1) have "active I_u' \<subset> active I_u"
      using I' by (rule deactivate_shrinks)
    then show ?thesis ..
  qed simp
  with p(1) I'
  show "\<exists>allocated_power.
          trial_allocation user_weights channel_gains I_u = Inr allocated_power \<and>
          (where_negative allocated_power = [] \<or>
           (\<exists>I_u'. index_put_zero I_u (where_negative allocated_power) = Inr I_u' \<and>
                   active I_u' \<subset> active I_u))"
    by blast
qed

text \<open>
  Weights 1 and 1, gains 0.01 and 1000: the first iteration deactivates agent 0, the
  second breaks.
\<close>

theorem backtracking_at_most_N_iterations_witness:
  "valid_input [1, 1] [1 / 100, 1000] \<and>
   backtracking_loop [1, 1] [1 / 100, 1000] (ones (length [1, 1 :: real])) None 0 =
     Inr ([0, 1], Some [0, 1], 2) \<and>
   (2 :: nat) \<le> length [1, 1 :: real] \<and>
   trial_allocation [1, 1] [1 / 100, 1000] [1, 1] = Inr [- (98999 / 2000), 100999 / 2000] \<and>
   index_put_zero [1, 1] (where_negative [- (98999 / 2000), 100999 / 2000]) = Inr [0, 1]"
proof -
  have v: "valid_input [1, 1] [1 / 100, 1000]"
    by (simp add: valid_input_def)
  have a: "backtracking_loop [1, 1] [1 / 100, 1000] (ones (length [1, 1 :: real])) None 0 =
           Inr ([0, 1], Some [0, 1], 2)"
    by code_simp
  have b: "trial_allocation [1, 1] [1 / 100, 1000] [1, 1] =
           Inr [- (98999 / 2000), 100999 / 2000]"
    by code_simp
  have c: "index_put_zero [1, 1] (where_negative [- (98999 / 2000), 100999 / 2000]) =
           Inr [0, 1]"
    by code_simp
  from backtracking_at_most_N_iterations[OF v] a b c v show ?thesis
    by simp
qed



text \<open>
  C3 says that \<open>waterfilling_bisection\<close> iterates until the bracket is no wider than the
  tolerance and returns the allocation of the last midpoint. The code does not: for weights
  1 and 1, gains 1 and 1 and tolerance \<open>1e-6\<close> the first execution of the body leaves the
  bracket \<open>[0.8, 1.6]\<close>, still wider than the tolerance, and the function returns that
  iteration's allocation, which is all zero and far from the budget.
\<close>

theorem bisection_returns_before_convergence:
  "bisection_body [1, 1] [1, 1] 0 (initial_mu_max [1, 1] [1, 1]) = Inr (4 / 5, 8 / 5, [0, 0]) \<and>
   (1 / 10 ^ 6 :: real) < 8 / 5 - 4 / 5 \<and>
   waterfilling_bisection [1, 1] [1, 1] (1 / 10 ^ 6) = Inr (Some [0, 0]) \<and>
   sum_list [0, 0 :: real] \<noteq> total_power"
proof -
  have m: "initial_mu_max [1, 1] [1, 1] = 8 / 5"
    by (simp add: initial_mu_max_def)
  have a: "bisection_body [1, 1] [1, 1] 0 (8 / 5) = Inr (4 / 5, 8 / 5, [0, 0])"
    by code_simp
  have b: "waterfilling_bisection [1, 1] [1, 1] (1 / 10 ^ 6) = Inr (Some [0, 0])"
    by code_simp
  from a b show ?thesis
    by (simp add: m total_power_def)
qed

text \<open>
  C4 says that the two solvers agree within \<open>1e-4\<close> in every entry when the bisection runs
  with tolerance \<open>1e-9\<close>. For weights 1 and 1 and gains 1 and 1 the backtracking solver
  returns 0.5 and 0.5, the bisection 0 and 0.
\<close>

theorem solvers_disagree:
  "waterfilling_backtracking [1, 1] [1, 1] = Inr [1 / 2, 1 / 2] \<and>
   waterfilling_bisection [1, 1] [1, 1] (1 / 10 ^ 9) = Inr (Some [0, 0]) \<and>
   \<not> \<bar>1 / 2 - 0 :: real\<bar> < 1 / 10 ^ 4"
proof -
  have a: "waterfilling_backtracking [1, 1] [1, 1] = Inr [1 / 2, 1 / 2]"
    by code_simp
  have b: "waterfilling_bisection [1, 1] [1, 1] (1 / 10 ^ 9) = Inr (Some [0, 0])"
    by code_simp
  from a b show ?thesis
    by simp
qed

text \<open>
  C9. For weights, gains and an allocation of equal length, with gains and allocation
  non-negative, \<open>compute_weighted_rate\<close> returns the sum over the agents \<open>u\<close> of
  \<open>weight_u * log2(1 + gain_u * allocation_u)\<close>. The function takes the gains first, then
  the weights, then the allocation.
\<close>

theorem compute_weighted_rate_value:
  assumes "length user_weights = length channel_gains"
    and "length allocated_power = length channel_gains"
    and "\<forall>g \<in> set channel_gains. 0 \<le> g"
    and "\<forall>p \<in> set allocated_power. 0 \<le> p"
  shows "compute_weighted_rate channel_gains user_weights allocated_power =
         Inr (\<Sum>u = 0..<length user_weights.
                user_weights ! u * log 2 (1 + channel_gains ! u * allocated_power ! u))"
proof (rule compute_weighted_rate_eq_length[OF assms(1,2)])
  fix u assume "u < length user_weights"
  with assms have "0 \<le> channel_gains ! u" "0 \<le> allocated_power ! u"
    by simp_all
  then have "0 \<le> channel_gains ! u * allocated_power ! u"
    by (rule mult_nonneg_nonneg)
  then show "0 < 1 + channel_gains ! u * allocated_power ! u"
    by simp
qed

text \<open>Weights 1 and 1, gains 1 and 1, allocation 0.5 and 0.5: the rate is \<open>2 * log2(1.5)\<close>.\<close>

theorem compute_weighted_rate_value_witness:
  "length [1, 1 :: real] = length [1, 1 :: real] \<and>
   length [1 / 2, 1 / 2 :: real] = length [1, 1 :: real] \<and>
   list_all (\<lambda>g. 0 \<le> g) [1, 1 :: real] \<and> list_all (\<lambda>p. 0 \<le> p) [1 / 2, 1 / 2 :: real] \<and>
   compute_weighted_rate [1, 1] [1, 1] [1 / 2, 1 / 2] = Inr (2 * log 2 (3 / 2))"
proof -
  have u: "{0..<length [1, 1 :: real]} = {0, 1}"
    by auto
  from compute_weighted_rate_value[of "[1, 1]" "[1, 1]" "[1 / 2, 1 / 2]"]
  show ?thesis
    by (simp add: u)
qed




end
